theory Spec2Isabelle
  imports Complex_Main "HOL-Library.Sublist"
begin

section \<open>Strings and paths\<close>

text \<open>
  Python strings are modelled as \<open>string\<close>. \<open>str.lower()\<close> is modelled on the ASCII
  letters; every other character is left as it is.
\<close>

definition lower_char :: "char \<Rightarrow> char" where
  "lower_char c =
     (case map_of (zip ''ABCDEFGHIJKLMNOPQRSTUVWXYZ'' ''abcdefghijklmnopqrstuvwxyz'') c of
        Some d \<Rightarrow> d
      | None \<Rightarrow> c)"

definition lower :: "string \<Rightarrow> string" where
  "lower s = map lower_char s"

text \<open>\<open>str(n)\<close> for a non-negative Python int: its decimal digits.\<close>

definition digit_char :: "nat \<Rightarrow> char" where
  "digit_char d = ''0123456789'' ! d"

fun str_nat :: "nat \<Rightarrow> string" where
  "str_nat n = (if n < 10 then [digit_char n] else str_nat (n div 10) @ [digit_char (n mod 10)])"

declare str_nat.simps [simp del]

text \<open>
  A \<open>pathlib.Path\<close> is modelled as the list of its components below the root; the
  root itself is \<open>[]\<close>. \<open>p / s\<close> appends the component \<open>s\<close> (a single name, without
  a separator), \<open>p.name\<close> is the last component and \<open>p.parent\<close> drops it.
\<close>

type_synonym path = "string list"

definition pjoin :: "path \<Rightarrow> string \<Rightarrow> path" where
  "pjoin p s = p @ [s]"

definition name :: "path \<Rightarrow> string" where
  "name p = (if p = [] then [] else last p)"

definition parent :: "path \<Rightarrow> path" where
  "parent p = butlast p"

text \<open>
  \<open>PurePath.suffix\<close> and \<open>PurePath.stem\<close> of the standard library:
  \<^verbatim>\<open>i = name.rfind('.')\<close>, and the suffix is \<^verbatim>\<open>name[i:]\<close> when
  \<^verbatim>\<open>0 < i < len(name) - 1\<close>, the empty string otherwise; the stem is the rest.
  \<open>rfind_dot\<close> is \<^verbatim>\<open>name.rfind('.')\<close>, with \<open>None\<close> for Python's \<open>-1\<close>.
\<close>

definition rfind_dot :: "string \<Rightarrow> nat option" where
  "rfind_dot s =
     (if CHR ''.'' \<in> set s
      then Some (length s - 1 - length (takeWhile (\<lambda>c. c \<noteq> CHR ''.'') (rev s)))
      else None)"

definition suffix_of_name :: "string \<Rightarrow> string" where
  "suffix_of_name s =
     (case rfind_dot s of
        None \<Rightarrow> []
      | Some i \<Rightarrow> if 0 < i \<and> i < length s - 1 then drop i s else [])"

definition stem_of_name :: "string \<Rightarrow> string" where
  "stem_of_name s =
     (case rfind_dot s of
        None \<Rightarrow> s
      | Some i \<Rightarrow> if 0 < i \<and> i < length s - 1 then take i s else s)"

definition path_suffix :: "path \<Rightarrow> string" where
  "path_suffix p = suffix_of_name (name p)"

definition path_stem :: "path \<Rightarrow> string" where
  "path_stem p = stem_of_name (name p)"

section \<open>Utility functions\<close>

text \<open>\<^verbatim>\<open>def file_extension_lower(path): return path.suffix.lower()\<close>\<close>

definition file_extension_lower :: "path \<Rightarrow> string" where
  "file_extension_lower p = lower (path_suffix p)"

text \<open>
  \<^verbatim>\<open>
  def find_category(ext, categories):
      for cat, exts in categories.items():
          if ext in (e.lower() for e in exts):
              return cat
      return "Others"
  \<close>
  The dictionary is iterated in insertion order, so it is modelled as an association
  list in that order.
\<close>

type_synonym categories = "(string \<times> string list) list"

fun find_category :: "string \<Rightarrow> categories \<Rightarrow> string" where
  "find_category ext [] = ''Others''"
| "find_category ext ((cat, exts) # rest) =
     (if ext \<in> set (map lower exts) then cat else find_category ext rest)"


section \<open>The file system, the journal and the operating-system calls\<close>

text \<open>
  The world the program runs in. \<open>fs\<close> maps a path to the entry found there: a regular
  file with its size in bytes, or a directory. \<open>device\<close> gives the device an entry at
  a path lives on (\<open>os.replace\<close> cannot cross devices), \<open>readonly\<close> the directories in
  which no entry can be created, removed or renamed, \<open>listing\<close> the order in which the
  operating system enumerates the names of a directory. \<open>journal\<close> is the action log:
  \<open>None\<close> when the file is missing, otherwise the lines that
  \<^verbatim>\<open>read_text().strip().splitlines()\<close> yields, oldest first. \<open>clock\<close> is what
  \<^verbatim>\<open>datetime.utcnow()\<close> returns.

  The action log and the application log are kept apart from \<open>fs\<close>: they are assumed
  to lie outside the directories being organized, and to be writable. Log messages are
  not part of the state.
\<close>

datatype node = File nat | Dir

datatype error =
    FileNotFoundError
  | FileExistsError
  | NotADirectoryError
  | IsADirectoryError
  | PermissionError
  | CrossDeviceError
  | InvalidArgumentError
  | ShutilError
  | JSONDecodeError

text \<open>Every error but \<open>JSONDecodeError\<close> is a subclass of Python's \<open>OSError\<close>.\<close>

definition is_OSError :: "error \<Rightarrow> bool" where
  "is_OSError e = (e \<noteq> JSONDecodeError)"

record action =
  a_timestamp :: nat
  a_src :: path
  a_dest :: path

text \<open>A line of the action log: a record, or text that \<open>json.loads\<close> rejects.\<close>

datatype jline = Entry action | Malformed string

record world =
  fs :: "path \<Rightarrow> node option"
  device :: "path \<Rightarrow> nat"
  readonly :: "path set"
  listing :: "path \<Rightarrow> string list"
  journal :: "jline list option"
  clock :: nat

definition exists :: "world \<Rightarrow> path \<Rightarrow> bool" where
  "exists w p = (fs w p \<noteq> None)"

definition is_dir :: "world \<Rightarrow> path \<Rightarrow> bool" where
  "is_dir w p = (fs w p = Some Dir)"

definition is_file :: "world \<Rightarrow> path \<Rightarrow> bool" where
  "is_file w p = (case fs w p of Some (File n) \<Rightarrow> True | Some Dir \<Rightarrow> False | None \<Rightarrow> False)"

text \<open>
  \<^verbatim>\<open>Path.mkdir(parents=True, exist_ok=True)\<close>: every missing directory on the way
  to the path is created, top down; a regular file in the way raises, as does a missing
  directory whose parent is read-only. \<open>mkdirs w pre cs\<close> has reached \<open>pre\<close> and still
  has the components \<open>cs\<close> to go.
\<close>

fun mkdirs :: "world \<Rightarrow> path \<Rightarrow> string list \<Rightarrow> (error + unit) \<times> world" where
  "mkdirs w pre [] = (Inr (), w)"
| "mkdirs w pre (c # cs) =
     (case fs w (pre @ [c]) of
        Some Dir \<Rightarrow> mkdirs w (pre @ [c]) cs
      | Some (File n) \<Rightarrow> (Inl (if cs = [] then FileExistsError else NotADirectoryError), w)
      | None \<Rightarrow>
          if pre \<in> readonly w then (Inl PermissionError, w)
          else mkdirs (w\<lparr>fs := (fs w)(pre @ [c] \<mapsto> Dir)\<rparr>) (pre @ [c]) cs)"

definition mkdir_parents :: "world \<Rightarrow> path \<Rightarrow> (error + unit) \<times> world" where
  "mkdir_parents w p = mkdirs w [] p"

text \<open>
  Moving the directory at \<open>s\<close> to \<open>d\<close> takes everything below it along.
\<close>

definition move_tree :: "(path \<Rightarrow> node option) \<Rightarrow> path \<Rightarrow> path \<Rightarrow> (path \<Rightarrow> node option)" where
  "move_tree f s d =
     (\<lambda>p. if prefix d p then f (s @ drop (length d) p)
          else if prefix s p then None
          else f p)"

text \<open>
  \<^verbatim>\<open>os.replace(s, d)\<close> (POSIX \<open>rename\<close>): atomic, within one device, between
  directories that can be written. The program only calls it with a destination it has
  just found absent; for an existing destination the model lets a file replace a file
  and raises otherwise. A failed call changes nothing.
\<close>

definition os_replace :: "world \<Rightarrow> path \<Rightarrow> path \<Rightarrow> (error + unit) \<times> world" where
  "os_replace w s d =
     (case fs w s of
        None \<Rightarrow> (Inl FileNotFoundError, w)
      | Some n \<Rightarrow>
          if fs w (parent d) = None then (Inl FileNotFoundError, w)
          else if fs w (parent d) \<noteq> Some Dir then (Inl NotADirectoryError, w)
          else if s = d then (Inr (), w)
          else if parent s \<in> readonly w \<or> parent d \<in> readonly w then (Inl PermissionError, w)
          else if device w s \<noteq> device w d then (Inl CrossDeviceError, w)
          else (case n of
                  File sz \<Rightarrow>
                    (case fs w d of
                       Some Dir \<Rightarrow> (Inl IsADirectoryError, w)
                     | Some (File sz') \<Rightarrow> (Inr (), w\<lparr>fs := (fs w)(d \<mapsto> n, s := None)\<rparr>)
                     | None \<Rightarrow> (Inr (), w\<lparr>fs := (fs w)(d \<mapsto> n, s := None)\<rparr>))
                | Dir \<Rightarrow>
                    if prefix s d then (Inl InvalidArgumentError, w)
                    else (case fs w d of
                            Some (File sz') \<Rightarrow> (Inl NotADirectoryError, w)
                          | Some Dir \<Rightarrow> (Inl FileExistsError, w)
                          | None \<Rightarrow> (Inr (), w\<lparr>fs := move_tree (fs w) s d\<rparr>))))"

text \<open>\<^verbatim>\<open>shutil.copy2(s, d)\<close> of a regular file, and \<^verbatim>\<open>os.unlink(s)\<close>.\<close>

definition copy2 :: "world \<Rightarrow> path \<Rightarrow> path \<Rightarrow> (error + unit) \<times> world" where
  "copy2 w s d =
     (case fs w s of
        None \<Rightarrow> (Inl FileNotFoundError, w)
      | Some Dir \<Rightarrow> (Inl IsADirectoryError, w)
      | Some (File sz) \<Rightarrow>
          if fs w (parent d) \<noteq> Some Dir then (Inl FileNotFoundError, w)
          else (case fs w d of
                  Some Dir \<Rightarrow> (Inl IsADirectoryError, w)
                | Some (File sz') \<Rightarrow> (Inr (), w\<lparr>fs := (fs w)(d \<mapsto> File sz)\<rparr>)
                | None \<Rightarrow>
                    if parent d \<in> readonly w then (Inl PermissionError, w)
                    else (Inr (), w\<lparr>fs := (fs w)(d \<mapsto> File sz)\<rparr>)))"

definition os_unlink :: "world \<Rightarrow> path \<Rightarrow> (error + unit) \<times> world" where
  "os_unlink w s =
     (case fs w s of
        None \<Rightarrow> (Inl FileNotFoundError, w)
      | Some Dir \<Rightarrow> (Inl IsADirectoryError, w)
      | Some (File sz) \<Rightarrow>
          if parent s \<in> readonly w then (Inl PermissionError, w)
          else (Inr (), w\<lparr>fs := (fs w)(s := None)\<rparr>))"

text \<open>
  \<^verbatim>\<open>shutil.move(s, d)\<close> of the standard library: a destination that is a
  directory receives the source under its own name; \<^verbatim>\<open>os.rename\<close> is tried
  first, and when it raises an \<open>OSError\<close> a regular file is copied and then unlinked,
  a directory is copied as a tree and then removed. The copy does not need one device.
\<close>

definition shutil_move :: "world \<Rightarrow> path \<Rightarrow> path \<Rightarrow> (error + path) \<times> world" where
  "shutil_move w s d =
     (let real_dst = (if is_dir w d then pjoin d (name s) else d) in
      if is_dir w d \<and> exists w real_dst then (Inl ShutilError, w)
      else (case os_replace w s real_dst of
              (Inr u, w1) \<Rightarrow> (Inr real_dst, w1)
            | (Inl e, w1) \<Rightarrow>
                (case fs w1 s of
                   Some Dir \<Rightarrow>
                     if prefix s real_dst then (Inl ShutilError, w1)
                     else if fs w1 (parent real_dst) \<noteq> Some Dir then (Inl FileNotFoundError, w1)
                     else if exists w1 real_dst then (Inl FileExistsError, w1)
                     else if parent s \<in> readonly w1 \<or> parent real_dst \<in> readonly w1
                       then (Inl PermissionError, w1)
                     else (Inr real_dst, w1\<lparr>fs := move_tree (fs w1) s real_dst\<rparr>)
                 | _ \<Rightarrow>
                     (case copy2 w1 s real_dst of
                        (Inl e2, w2) \<Rightarrow> (Inl e2, w2)
                      | (Inr u2, w2) \<Rightarrow>
                          (case os_unlink w2 s of
                             (Inl e3, w3) \<Rightarrow> (Inl e3, w3)
                           | (Inr u3, w3) \<Rightarrow> (Inr real_dst, w3))))))"

section \<open>Collision resolution and the safe move\<close>

text \<open>
  \<^verbatim>\<open>
  def resolve_name_collision(dest):
      if not dest.exists():
          return dest
      parent = dest.parent
      stem, suffix = dest.stem, dest.suffix
      counter = 1
      while True:
          candidate = parent / f"{stem} ({counter}){suffix}"
          if not candidate.exists():
              return candidate
          counter += 1
  \<close>
  The loop has no bound: it runs for ever when every candidate exists, so it is a
  partial function, and \<open>None\<close> stands for a call that does not return.
\<close>

definition candidate :: "path \<Rightarrow> string \<Rightarrow> string \<Rightarrow> nat \<Rightarrow> path" where
  "candidate par stm suf counter = pjoin par (stm @ '' ('' @ str_nat counter @ '')'' @ suf)"

partial_function (option) resolve_loop ::
  "world \<Rightarrow> path \<Rightarrow> string \<Rightarrow> string \<Rightarrow> nat \<Rightarrow> path option" where
  "resolve_loop w par stm suf counter =
     (if \<not> exists w (candidate par stm suf counter)
      then Some (candidate par stm suf counter)
      else resolve_loop w par stm suf (counter + 1))"

declare resolve_loop.simps [code]

definition resolve_name_collision :: "world \<Rightarrow> path \<Rightarrow> path option" where
  "resolve_name_collision w dest =
     (if \<not> exists w dest then Some dest
      else resolve_loop w (parent dest) (path_stem dest) (path_suffix dest) 1)"

text \<open>
  \<^verbatim>\<open>
  def safe_move(src, dest, logger):
      dest.parent.mkdir(parents=True, exist_ok=True)
      final_dest = resolve_name_collision(dest)
      try:
          os.replace(src, final_dest)
      except OSError:
          shutil.move(str(src), str(final_dest))
      return final_dest
  \<close>
  The result carries the world also when an error is raised, since the calls made
  before the error have had their effect.
\<close>

definition safe_move :: "world \<Rightarrow> path \<Rightarrow> path \<Rightarrow> ((error + path) \<times> world) option" where
  "safe_move w src dest =
     (case mkdir_parents w (parent dest) of
        (Inl e, w1) \<Rightarrow> Some (Inl e, w1)
      | (Inr u, w1) \<Rightarrow>
          (case resolve_name_collision w1 dest of
             None \<Rightarrow> None
           | Some final_dest \<Rightarrow>
               (case os_replace w1 src final_dest of
                  (Inr u2, w2) \<Rightarrow> Some (Inr final_dest, w2)
                | (Inl e, w2) \<Rightarrow>
                    if is_OSError e
                    then (case shutil_move w2 src final_dest of
                            (Inl e3, w3) \<Rightarrow> Some (Inl e3, w3)
                          | (Inr real_dst, w3) \<Rightarrow> Some (Inr final_dest, w3))
                    else Some (Inl e, w2))))"

text \<open>
  \<^verbatim>\<open>
  def record_action(action_log, src, dest):
      entry = {"timestamp": datetime.utcnow().isoformat() + "Z",
               "src": str(src), "dest": str(dest)}
      with action_log.open("a", encoding="utf-8") as f:
          f.write(json.dumps(entry, ensure_ascii=False) + "\n")
  \<close>
  Opening for append creates a missing file.
\<close>

definition record_action :: "world \<Rightarrow> path \<Rightarrow> path \<Rightarrow> world" where
  "record_action w src dest =
     w\<lparr>journal :=
         Some ((case journal w of None \<Rightarrow> [] | Some ls \<Rightarrow> ls)
               @ [Entry \<lparr>a_timestamp = clock w, a_src = src, a_dest = dest\<rparr>])\<rparr>"


section \<open>Core functions\<close>

text \<open>
  The configuration, as \<open>load_config\<close> returns it, with its paths already expanded
  to absolute form. \<open>Categories\<close> is a dictionary and keeps its insertion order. The
  threshold is a JSON number; it is kept as a rational, which every such number is.
\<close>

record config =
  DownloadsPath :: path
  Categories :: categories
  LargeFileThresholdMB :: rat
  Ignore :: "string list"

text \<open>
  \<^verbatim>\<open>Path.iterdir()\<close> yields the entries of a directory once each, in the order of
  the operating system.
  \<^verbatim>\<open>
  def scan_folder(target, ignore):
      return [p for p in target.iterdir() if p.is_file() and p.name not in ignore]
  \<close>
\<close>

definition iterdir :: "world \<Rightarrow> path \<Rightarrow> path list" where
  "iterdir w d = filter (exists w) (map (pjoin d) (remdups (listing w d)))"

definition scan_folder :: "world \<Rightarrow> path \<Rightarrow> string list \<Rightarrow> path list" where
  "scan_folder w target ignore =
     filter (\<lambda>p. is_file w p \<and> name p \<notin> set ignore) (iterdir w target)"

text \<open>
  A Python dictionary with its insertion order: an association list with one pair for
  each key. \<open>dict_set\<close> is \<^verbatim>\<open>d[k] = v\<close>.
\<close>

type_synonym summary = "(string \<times> nat) list"

fun dict_set :: "('k \<times> 'v) list \<Rightarrow> 'k \<Rightarrow> 'v \<Rightarrow> ('k \<times> 'v) list" where
  "dict_set [] k v = [(k, v)]"
| "dict_set ((k', v') # d) k v =
     (if k' = k then (k', v) # d else (k', v') # dict_set d k v)"

text \<open>\<^verbatim>\<open>summary = {k: 0 for k in list(categories.keys()) + ["Others"]}\<close>\<close>

definition initial_summary :: "categories \<Rightarrow> summary" where
  "initial_summary cats = foldl (\<lambda>d k. dict_set d k 0) [] (map fst cats @ [''Others''])"

text \<open>
  \<^verbatim>\<open>summary.setdefault(cat, 0); summary[cat] += 1\<close>. After \<open>setdefault\<close> the key
  is present, so the increment cannot raise \<open>KeyError\<close>.
\<close>

definition setdefault :: "summary \<Rightarrow> string \<Rightarrow> nat \<Rightarrow> summary" where
  "setdefault d k v = (case map_of d k of None \<Rightarrow> dict_set d k v | Some c \<Rightarrow> d)"

definition count_file :: "summary \<Rightarrow> string \<Rightarrow> summary" where
  "count_file d cat =
     (let d1 = setdefault d cat 0 in
      case map_of d1 cat of None \<Rightarrow> d1 | Some c \<Rightarrow> dict_set d1 cat (c + 1))"

text \<open>
  \<^verbatim>\<open>categories = {k: [e.lower() for e in v] for k, v in config["Categories"].items()}\<close>
\<close>

definition lowered_categories :: "config \<Rightarrow> categories" where
  "lowered_categories cfg = map (\<lambda>(k, v). (k, map lower v)) (Categories cfg)"

text \<open>
  \<^verbatim>\<open>file.stat().st_size\<close>; the size of a directory is never asked for, since only
  regular files are scanned.
\<close>

definition st_size :: "world \<Rightarrow> path \<Rightarrow> error + nat" where
  "st_size w p =
     (case fs w p of
        None \<Rightarrow> Inl FileNotFoundError
      | Some (File n) \<Rightarrow> Inr n
      | Some Dir \<Rightarrow> Inr 0)"

text \<open>
  The first part of the body of the loop in \<open>organize\<close>:
  \<^verbatim>\<open>
  ext = file_extension_lower(file)
  cat = find_category(ext, categories)
  dest_folder = downloads / cat
  dest_path = dest_folder / file.name
  if config["LargeFileThresholdMB"]:
      size_mb = file.stat().st_size / (1024 * 1024)
      if size_mb >= config["LargeFileThresholdMB"]:
          dest_folder = dest_folder / "LargeFiles"
          dest_path = dest_folder / file.name
  \<close>
  The division is Python's true division. It is modelled exactly, over the rationals:
  dividing by \<open>2 ^ 20\<close> is exact in binary floating point for every size below
  \<open>2 ^ 53\<close> bytes.
\<close>

definition category_of :: "config \<Rightarrow> path \<Rightarrow> string" where
  "category_of cfg file = find_category (file_extension_lower file) (lowered_categories cfg)"

definition dest_path_of :: "config \<Rightarrow> world \<Rightarrow> path \<Rightarrow> error + path" where
  "dest_path_of cfg w file =
     (let cat = category_of cfg file;
          dest_folder = pjoin (DownloadsPath cfg) cat;
          dest_path = pjoin dest_folder (name file)
      in if LargeFileThresholdMB cfg \<noteq> 0
         then (case st_size w file of
                 Inl e \<Rightarrow> Inl e
               | Inr sz \<Rightarrow>
                   if of_nat sz / (1024 * 1024) \<ge> LargeFileThresholdMB cfg
                   then Inr (pjoin (pjoin dest_folder ''LargeFiles'') (name file))
                   else Inr dest_path)
         else Inr dest_path)"

text \<open>
  The rest of the body, up to the count:
  \<^verbatim>\<open>
  if dry_run:
      logger.info(...)
  else:
      final = safe_move(file, dest_path, logger)
      record_action(action_log_path, file, final)
  \<close>
  There is no \<open>try\<close> in \<open>organize\<close>: an error raised by \<open>safe_move\<close> leaves the
  function. On success the body yields the category to count.
\<close>

definition organize_file ::
  "config \<Rightarrow> bool \<Rightarrow> world \<Rightarrow> path \<Rightarrow> ((error + string) \<times> world) option" where
  "organize_file cfg dry_run w file =
     (case dest_path_of cfg w file of
        Inl e \<Rightarrow> Some (Inl e, w)
      | Inr dest_path \<Rightarrow>
          if dry_run then Some (Inr (category_of cfg file), w)
          else (case safe_move w file dest_path of
                  None \<Rightarrow> None
                | Some (Inl e, w1) \<Rightarrow> Some (Inl e, w1)
                | Some (Inr final, w1) \<Rightarrow>
                    Some (Inr (category_of cfg file), record_action w1 file final)))"

text \<open>
  \<^verbatim>\<open>
  for idx, file in enumerate(files):
      ...
      summary.setdefault(cat, 0)
      summary[cat] += 1
      if preview_limit and idx + 1 >= preview_limit:
          break
  return summary
  \<close>
\<close>

definition limit_reached :: "int option \<Rightarrow> nat \<Rightarrow> bool" where
  "limit_reached preview_limit idx =
     (case preview_limit of
        None \<Rightarrow> False
      | Some l \<Rightarrow> l \<noteq> 0 \<and> int idx + 1 \<ge> l)"

fun organize_loop ::
  "config \<Rightarrow> bool \<Rightarrow> int option \<Rightarrow> world \<Rightarrow> nat \<Rightarrow> path list \<Rightarrow> summary
     \<Rightarrow> ((error + summary) \<times> world) option" where
  "organize_loop cfg dry_run preview_limit w idx [] summary = Some (Inr summary, w)"
| "organize_loop cfg dry_run preview_limit w idx (file # rest) summary =
     (case organize_file cfg dry_run w file of
        None \<Rightarrow> None
      | Some (Inl e, w1) \<Rightarrow> Some (Inl e, w1)
      | Some (Inr cat, w1) \<Rightarrow>
          if limit_reached preview_limit idx
          then Some (Inr (count_file summary cat), w1)
          else organize_loop cfg dry_run preview_limit w1 (idx + 1) rest (count_file summary cat))"

text \<open>
  \<^verbatim>\<open>
  def organize(config, dry_run=False, verbose=False, preview_limit=None):
      downloads = expand_path(config["DownloadsPath"])
      if not downloads.exists():
          raise FileNotFoundError(...)
      categories = {...}
      ignore = config["Ignore"]
      files = scan_folder(downloads, ignore)
      summary = {k: 0 for k in list(categories.keys()) + ["Others"]}
      for idx, file in enumerate(files): ...
      return summary
  \<close>
  \<open>iterdir\<close> raises when the target exists and is not a directory.
\<close>

definition organize ::
  "config \<Rightarrow> bool \<Rightarrow> int option \<Rightarrow> world \<Rightarrow> ((error + summary) \<times> world) option" where
  "organize cfg dry_run preview_limit w =
     (if \<not> exists w (DownloadsPath cfg) then Some (Inl FileNotFoundError, w)
      else if \<not> is_dir w (DownloadsPath cfg) then Some (Inl NotADirectoryError, w)
      else organize_loop cfg dry_run preview_limit w 0
             (scan_folder w (DownloadsPath cfg) (Ignore cfg))
             (initial_summary (lowered_categories cfg)))"

section \<open>Undo\<close>

text \<open>
  Python's slices \<^verbatim>\<open>xs[i:]\<close> and \<^verbatim>\<open>xs[:i]\<close>: a negative bound counts from
  the end, and every bound is clamped to the list.
\<close>

definition slice_bound :: "nat \<Rightarrow> int \<Rightarrow> nat" where
  "slice_bound n i = (if i < 0 then nat (max (int n + i) 0) else min (nat i) n)"

definition slice_from :: "'a list \<Rightarrow> int \<Rightarrow> 'a list" where
  "slice_from xs i = drop (slice_bound (length xs) i) xs"

definition slice_to :: "'a list \<Rightarrow> int \<Rightarrow> 'a list" where
  "slice_to xs i = take (slice_bound (length xs) i) xs"

text \<open>
  The \<open>try\<close> block of the loop in \<open>undo_actions\<close>:
  \<^verbatim>\<open>
  entry = json.loads(line)
  src, dest = Path(entry["src"]), Path(entry["dest"])
  if dest.exists() and not src.exists():
      os.replace(dest, src)
      undone += 1
  \<close>
  It yields \<open>Inr True\<close> when the record has been reversed, \<open>Inr False\<close> when it has
  been passed over, and the error when one is raised.
\<close>

definition undo_line :: "world \<Rightarrow> jline \<Rightarrow> (error + bool) \<times> world" where
  "undo_line w line =
     (case line of
        Malformed t \<Rightarrow> (Inl JSONDecodeError, w)
      | Entry a \<Rightarrow>
          if exists w (a_dest a) \<and> \<not> exists w (a_src a)
          then (case os_replace w (a_dest a) (a_src a) of
                  (Inl e, w1) \<Rightarrow> (Inl e, w1)
                | (Inr u, w1) \<Rightarrow> (Inr True, w1))
          else (Inr False, w))"

text \<open>
  \<^verbatim>\<open>
  for line in reversed(to_undo):
      try: ...
      except Exception as e:
          logger.error(f"Undo failed: {e}")
  \<close>
  The list given to \<open>undo_loop\<close> is already reversed.
\<close>

fun undo_loop :: "world \<Rightarrow> jline list \<Rightarrow> nat \<Rightarrow> nat \<times> world" where
  "undo_loop w [] undone = (undone, w)"
| "undo_loop w (line # rest) undone =
     (case undo_line w line of
        (Inr True, w1) \<Rightarrow> undo_loop w1 rest (undone + 1)
      | (Inr False, w1) \<Rightarrow> undo_loop w1 rest undone
      | (Inl e, w1) \<Rightarrow> undo_loop w1 rest undone)"

text \<open>
  \<^verbatim>\<open>
  def undo_actions(config, count, verbose=False):
      if not action_log.exists():
          return 0
      lines = action_log.read_text(encoding="utf-8").strip().splitlines()
      if not lines:
          return 0
      to_undo = lines[-count:]
      remaining = lines[:-count]
      undone = 0
      for line in reversed(to_undo): ...
      action_log.write_text("\n".join(remaining) + ("\n" if remaining else ""))
      return undone
  \<close>
\<close>

definition undo_actions :: "world \<Rightarrow> int \<Rightarrow> nat \<times> world" where
  "undo_actions w count =
     (case journal w of
        None \<Rightarrow> (0, w)
      | Some lines \<Rightarrow>
          if lines = [] then (0, w)
          else (let to_undo = slice_from lines (- count);
                    remaining = slice_to lines (- count);
                    (undone, w1) = undo_loop w (rev to_undo) 0
                in (undone, w1\<lparr>journal := Some remaining\<rparr>)))"

section \<open>Command line\<close>

text \<open>
  \<^verbatim>\<open>
  def main():
      args = parse_args()
      ...
      if args.undo:
          undo_actions(config, args.undo, args.verbose)
          return
      summary = organize(config, args.dry_run, args.verbose, args.preview_limit or None)
  \<close>
\<close>

record args =
  arg_dry_run :: bool
  arg_undo :: int
  arg_preview_limit :: int

datatype run = UndoRun nat | OrganizeRun "error + summary"

definition main :: "config \<Rightarrow> args \<Rightarrow> world \<Rightarrow> (run \<times> world) option" where
  "main cfg a w =
     (if arg_undo a \<noteq> 0
      then (case undo_actions w (arg_undo a) of (undone, w1) \<Rightarrow> Some (UndoRun undone, w1))
      else (case organize cfg (arg_dry_run a)
                   (if arg_preview_limit a \<noteq> 0 then Some (arg_preview_limit a) else None) w of
              None \<Rightarrow> None
            | Some (r, w1) \<Rightarrow> Some (OrganizeRun r, w1)))"

section \<open>Reading the state\<close>

text \<open>The lines of the journal, none for a missing file; the files a summary counts.\<close>

definition journal_lines :: "world \<Rightarrow> jline list" where
  "journal_lines w = (case journal w of None \<Rightarrow> [] | Some ls \<Rightarrow> ls)"


section \<open>The undo engine in the words of the specification\<close>



section \<open>Example worlds\<close>

text \<open>
  A downloads directory \<open>/dl\<close> with four regular files and the category directory
  \<open>Others\<close>, in which \<open>notes.txt\<close> and \<open>notes (1).txt\<close> are taken already.
\<close>

definition example_config :: config where
  "example_config =
     \<lparr>DownloadsPath = [''dl''],
      Categories = [(''Images'', [''.jpg'', ''.png''])],
      LargeFileThresholdMB = 500,
      Ignore = [''desktop.ini'']\<rparr>"

definition example_world :: world where
  "example_world =
     \<lparr>fs = [[] \<mapsto> Dir,
             [''dl''] \<mapsto> Dir,
             [''dl'', ''a.jpg''] \<mapsto> File 1048576,
             [''dl'', ''b.png''] \<mapsto> File 629145600,
             [''dl'', ''desktop.ini''] \<mapsto> File 100,
             [''dl'', ''notes.txt''] \<mapsto> File 10,
             [''dl'', ''Others''] \<mapsto> Dir,
             [''dl'', ''Others'', ''notes.txt''] \<mapsto> File 7,
             [''dl'', ''Others'', ''notes (1).txt''] \<mapsto> File 8],
      device = (\<lambda>p. 0),
      readonly = {},
      listing = (\<lambda>p. if p = [''dl'']
                     then [''a.jpg'', ''b.png'', ''desktop.ini'', ''notes.txt'', ''Others'']
                     else []),
      journal = None,
      clock = 0\<rparr>"

text \<open>
  The same directory after \<open>a.jpg\<close> and \<open>notes.txt\<close> have been moved into fresh
  category folders, with the two records of these moves in the journal.
\<close>

definition organized_world :: world where
  "organized_world =
     \<lparr>fs = [[] \<mapsto> Dir,
             [''dl''] \<mapsto> Dir,
             [''dl'', ''Images''] \<mapsto> Dir,
             [''dl'', ''Images'', ''a.jpg''] \<mapsto> File 1048576,
             [''dl'', ''Others''] \<mapsto> Dir,
             [''dl'', ''Others'', ''notes.txt''] \<mapsto> File 10],
      device = (\<lambda>p. 0),
      readonly = {},
      listing = (\<lambda>p. if p = [''dl''] then [''Images'', ''Others''] else []),
      journal = Some [Entry \<lparr>a_timestamp = 0, a_src = [''dl'', ''a.jpg''],
                              a_dest = [''dl'', ''Images'', ''a.jpg'']\<rparr>,
                      Entry \<lparr>a_timestamp = 1, a_src = [''dl'', ''notes.txt''],
                              a_dest = [''dl'', ''Others'', ''notes.txt'']\<rparr>],
      clock = 2\<rparr>"

text \<open>
  The first directory again, with the folder \<open>/dl/Images\<close> present already and on a
  device of its own (a mount point).
\<close>

definition mounted_world :: world where
  "mounted_world =
     example_world
       \<lparr>fs := (fs example_world)([''dl'', ''Images''] \<mapsto> Dir),
        device := (\<lambda>p. if prefix [''dl'', ''Images''] p then 1 else 0)\<rparr>"




section \<open>Evaluation on concrete inputs\<close>

lemmas path_eval = file_extension_lower_def lower_def lower_char_def path_suffix_def path_stem_def
  name_def parent_def pjoin_def suffix_of_name_def stem_of_name_def rfind_dot_def

lemmas os_eval = exists_def is_dir_def is_file_def mkdir_parents_def os_replace_def copy2_def
  os_unlink_def shutil_move_def candidate_def resolve_name_collision_def safe_move_def
  record_action_def is_OSError_def Let_def

lemmas organize_eval = organize_def organize_file_def dest_path_of_def category_of_def
  lowered_categories_def st_size_def scan_folder_def iterdir_def initial_summary_def
  count_file_def setdefault_def limit_reached_def

lemmas undo_eval = undo_actions_def undo_line_def slice_from_def slice_to_def slice_bound_def

section \<open>Classification\<close>



section \<open>Collision resolution\<close>

text \<open>The decimal rendering of the counter is injective, so the candidates differ.\<close>

lemma digit_char_inj: "d < 10 \<Longrightarrow> e < 10 \<Longrightarrow> digit_char d = digit_char e \<Longrightarrow> d = e"
proof -
  assume d: "d < 10" and e: "e < 10" and eq: "digit_char d = digit_char e"
  have D: "d \<in> {0, 1, 2, 3, 4, 5, 6, 7, 8, 9}" using d by auto
  have E: "e \<in> {0, 1, 2, 3, 4, 5, 6, 7, 8, 9}" using e by auto
  from D E eq show "d = e"
    by (auto simp: digit_char_def)
qed

lemma str_nat_nonempty: "str_nat n \<noteq> []"
  by (subst str_nat.simps) simp

lemma str_nat_inj: "str_nat m = str_nat n \<Longrightarrow> m = n"
proof (induction m arbitrary: n rule: str_nat.induct)
  case (1 m)
  show ?case
  proof (cases "m < 10")
    case small_m: True
    show ?thesis
    proof (cases "n < 10")
      case True
      with small_m "1.prems" show ?thesis
        by (simp add: str_nat.simps [of m] str_nat.simps [of n] digit_char_inj)
    next
      case False
      with small_m "1.prems" str_nat_nonempty [of "n div 10"] show ?thesis
        by (simp add: str_nat.simps [of m] str_nat.simps [of n])
    qed
  next
    case big_m: False
    show ?thesis
    proof (cases "n < 10")
      case True
      with big_m "1.prems" str_nat_nonempty [of "m div 10"] show ?thesis
        by (simp add: str_nat.simps [of m] str_nat.simps [of n])
    next
      case False
      with big_m "1.prems"
      have eq: "str_nat (m div 10) = str_nat (n div 10)"
        and dg: "digit_char (m mod 10) = digit_char (n mod 10)"
        by (simp_all add: str_nat.simps [of m] str_nat.simps [of n])
      from "1.IH" [OF big_m eq] have "m div 10 = n div 10" .
      moreover from dg have "m mod 10 = n mod 10"
        by (intro digit_char_inj) simp_all
      ultimately show ?thesis
        by (metis div_mult_mod_eq)
    qed
  qed
qed

lemma candidate_inj: "candidate par stm suf m = candidate par stm suf n \<Longrightarrow> m = n"
  by (simp add: candidate_def pjoin_def str_nat_inj)

lemma free_candidate_exists:
  assumes "finite (dom (fs w))"
  shows "\<exists>n\<ge>1. \<not> exists w (candidate par stm suf n)"
proof (rule ccontr)
  assume "\<not> ?thesis"
  hence all: "\<And>n. 1 \<le> n \<Longrightarrow> candidate par stm suf n \<in> dom (fs w)"
    by (auto simp: exists_def)
  let ?f = "\<lambda>n. candidate par stm suf (Suc n)"
  have "range ?f \<subseteq> dom (fs w)" using all by auto
  hence "finite (range ?f)" using assms finite_subset by blast
  moreover have "inj ?f" by (auto simp: inj_on_def dest: candidate_inj)
  ultimately have "finite (UNIV :: nat set)" by (rule finite_imageD)
  thus False by simp
qed

lemma resolve_loop_first_free:
  assumes "\<not> exists w (candidate par stm suf n)"
    and "k \<le> n"
    and "\<And>m. k \<le> m \<Longrightarrow> m < n \<Longrightarrow> exists w (candidate par stm suf m)"
  shows "resolve_loop w par stm suf k = Some (candidate par stm suf n)"
  using assms(2,3)
proof (induction "n - k" arbitrary: k)
  case 0
  hence "k = n" by simp
  with assms(1) show ?case by (subst resolve_loop.simps) simp
next
  case (Suc d)
  hence lt: "k < n" by simp
  with Suc.prems have occ: "exists w (candidate par stm suf k)" by simp
  have "resolve_loop w par stm suf (k + 1) = Some (candidate par stm suf n)"
    using Suc.hyps(2) lt Suc.prems by (intro Suc.hyps(1)) auto
  with occ show ?case by (subst resolve_loop.simps) simp
qed

lemma resolve_loop_result:
  "resolve_loop w par stm suf k = Some p \<Longrightarrow>
     \<exists>n\<ge>k. p = candidate par stm suf n \<and> \<not> exists w p \<and>
        (\<forall>m. k \<le> m \<and> m < n \<longrightarrow> exists w (candidate par stm suf m))"
proof (induction rule: resolve_loop.raw_induct [rotated 1, consumes 1])
  case (1 resolve_loop w par stm suf counter p)
  show ?case
  proof (cases "exists w (candidate par stm suf counter)")
    case False
    with 1(2) show ?thesis by auto
  next
    case True
    with 1(2) have "resolve_loop w par stm suf (counter + 1) = Some p" by simp
    from 1(1) [OF this] obtain n where n: "counter + 1 \<le> n" "p = candidate par stm suf n"
      "\<not> exists w p" "\<forall>m. counter + 1 \<le> m \<and> m < n \<longrightarrow> exists w (candidate par stm suf m)"
      by blast
    have "\<forall>m. counter \<le> m \<and> m < n \<longrightarrow> exists w (candidate par stm suf m)"
    proof (intro allI impI)
      fix m assume "counter \<le> m \<and> m < n"
      thus "exists w (candidate par stm suf m)"
        using True n(4) by (cases "m = counter") auto
    qed
    with n show ?thesis by (intro exI [of _ n]) auto
  qed
qed

text \<open>
  C2. In a file system with finitely many entries, \<open>resolve_name_collision\<close> returns,
  and the path it returns does not exist at that moment: a destination that does not
  exist is returned unchanged; for one that exists the result is the candidate
  \<open>"{stem} ({n}){suffix}"\<close> beside it, for the first \<open>n = 1, 2, ...\<close> whose candidate
  does not exist.
\<close>

theorem resolve_name_collision_free:
  assumes "finite (dom (fs w))"
  shows "\<exists>p. resolve_name_collision w dest = Some p \<and> \<not> exists w p \<and>
           (if exists w dest
            then \<exists>n\<ge>1. p = parent dest @ [path_stem dest @ '' ('' @ str_nat n @ '')'' @ path_suffix dest] \<and>
                   (\<forall>m. 1 \<le> m \<and> m < n \<longrightarrow>
                      exists w (parent dest @ [path_stem dest @ '' ('' @ str_nat m @ '')'' @ path_suffix dest]))
            else p = dest)"
proof (cases "exists w dest")
  case False
  thus ?thesis by (simp add: resolve_name_collision_def)
next
  case True
  let ?c = "candidate (parent dest) (path_stem dest) (path_suffix dest)"
  from free_candidate_exists [OF assms]
  obtain n0 where "1 \<le> n0 \<and> \<not> exists w (?c n0)" by blast
  then obtain n where n: "1 \<le> n \<and> \<not> exists w (?c n)"
    and least: "\<And>m. 1 \<le> m \<and> \<not> exists w (?c m) \<Longrightarrow> n \<le> m"
    using ex_has_least_nat [of "\<lambda>m. 1 \<le> m \<and> \<not> exists w (?c m)" n0 "\<lambda>m. m"] by auto
  have occ: "\<And>m. 1 \<le> m \<Longrightarrow> m < n \<Longrightarrow> exists w (?c m)"
    using least by fastforce
  have "resolve_loop w (parent dest) (path_stem dest) (path_suffix dest) 1 = Some (?c n)"
    using n occ by (intro resolve_loop_first_free) auto
  with True n occ show ?thesis
    by (auto simp: resolve_name_collision_def candidate_def pjoin_def intro!: exI [of _ n])
qed

theorem resolve_name_collision_free_witness:
  "finite (dom (fs example_world)) \<and>
   resolve_name_collision example_world [''dl'', ''Others'', ''notes.txt'']
     = Some [''dl'', ''Others'', ''notes (2).txt''] \<and>
   \<not> exists example_world [''dl'', ''Others'', ''notes (2).txt''] \<and>
   resolve_name_collision example_world [''dl'', ''Images'', ''a.jpg'']
     = Some [''dl'', ''Images'', ''a.jpg'']"
proof -
  have fin: "finite (dom (fs example_world))"
    by (simp add: example_world_def)
  have v1: "resolve_name_collision example_world [''dl'', ''Others'', ''notes.txt'']
      = Some [''dl'', ''Others'', ''notes (2).txt'']"
    by (simp add: example_world_def os_eval path_eval resolve_loop.simps str_nat.simps
        digit_char_def)
  have free: "\<not> exists example_world [''dl'', ''Others'', ''notes (2).txt'']"
    using resolve_name_collision_free [OF fin, of "[''dl'', ''Others'', ''notes.txt'']"] v1
    by auto
  have "\<not> exists example_world [''dl'', ''Images'', ''a.jpg'']"
    by (simp add: example_world_def exists_def)
  hence v2: "resolve_name_collision example_world [''dl'', ''Images'', ''a.jpg'']
      = Some [''dl'', ''Images'', ''a.jpg'']"
    using resolve_name_collision_free [OF fin, of "[''dl'', ''Images'', ''a.jpg'']"]
    by auto
  from fin v1 free v2 show ?thesis by simp
qed

section \<open>What the operating-system calls change\<close>

lemma resolve_name_collision_absent:
  "resolve_name_collision w dest = Some p \<Longrightarrow> \<not> exists w p"
  by (auto simp: resolve_name_collision_def split: if_splits dest: resolve_loop_result)

lemma resolve_name_collision_parent:
  "resolve_name_collision w dest = Some p \<Longrightarrow> parent p = parent dest"
  by (auto simp: resolve_name_collision_def candidate_def pjoin_def parent_def
      split: if_splits dest!: resolve_loop_result)

lemma mkdirs_fields: "mkdirs w pre cs = (r, w1) \<Longrightarrow> w1 = w\<lparr>fs := fs w1\<rparr>"
proof (induction cs arbitrary: w pre)
  case Nil
  then show ?case by simp
next
  case (Cons c cs)
  show ?case
  proof (cases "fs w (pre @ [c])")
    case None
    show ?thesis
    proof (cases "pre \<in> readonly w")
      case True
      with None Cons.prems show ?thesis by simp
    next
      case False
      with None Cons.prems
      have "mkdirs (w\<lparr>fs := (fs w)(pre @ [c] \<mapsto> Dir)\<rparr>) (pre @ [c]) cs = (r, w1)" by simp
      from Cons.IH [OF this] show ?thesis by simp
    qed
  next
    case (Some n)
    with Cons show ?thesis by (cases n) (auto split: if_splits)
  qed
qed

lemma mkdirs_fs:
  "mkdirs w pre cs = (r, w1) \<Longrightarrow>
     fs w1 p = fs w p \<or>
     (fs w p = None \<and> fs w1 p = Some Dir \<and> length pre < length p \<and> length p \<le> length pre + length cs)"
proof (induction cs arbitrary: w pre)
  case Nil
  then show ?case by simp
next
  case (Cons c cs)
  show ?case
  proof (cases "fs w (pre @ [c])")
    case None
    show ?thesis
    proof (cases "pre \<in> readonly w")
      case True
      with None Cons.prems show ?thesis by simp
    next
      case False
      with None Cons.prems
      have "mkdirs (w\<lparr>fs := (fs w)(pre @ [c] \<mapsto> Dir)\<rparr>) (pre @ [c]) cs = (r, w1)" by simp
      from Cons.IH [OF this] None show ?thesis
        by (cases "p = pre @ [c]") auto
    qed
  next
    case (Some n)
    show ?thesis
    proof (cases n)
      case (File sz)
      with Some Cons.prems show ?thesis by simp
    next
      case Dir
      with Some Cons.prems have "mkdirs w (pre @ [c]) cs = (r, w1)" by simp
      from Cons.IH [OF this] show ?thesis by auto
    qed
  qed
qed

lemma mkdirs_keeps: "mkdirs w pre cs = (r, w1) \<Longrightarrow> fs w p = Some n \<Longrightarrow> fs w1 p = Some n"
  using mkdirs_fs [of w pre cs r w1 p] by auto

lemma mkdirs_long:
  "mkdirs w pre cs = (r, w1) \<Longrightarrow> length pre + length cs < length p \<Longrightarrow> fs w1 p = fs w p"
  using mkdirs_fs [of w pre cs r w1 p] by auto

lemma os_replace_fail: "os_replace w s d = (Inl e, w') \<Longrightarrow> w' = w \<and> is_OSError e"
  by (auto simp: os_replace_def is_OSError_def split: option.splits if_splits node.splits)

lemma os_replace_file:
  "fs w s = Some (File sz) \<Longrightarrow> fs w d = None \<Longrightarrow> os_replace w s d = (Inr u, w') \<Longrightarrow>
     w' = w\<lparr>fs := (fs w)(d \<mapsto> File sz, s := None)\<rparr>"
  by (auto simp: os_replace_def split: if_splits)

lemma shutil_move_file:
  assumes "fs w s = Some (File sz)" and "fs w d = None" and "shutil_move w s d = (r, w')"
  shows "case r of
           Inr p \<Rightarrow> p = d \<and> w' = w\<lparr>fs := (fs w)(d \<mapsto> File sz, s := None)\<rparr>
         | Inl e \<Rightarrow> w' = w \<or> w' = w\<lparr>fs := (fs w)(d \<mapsto> File sz)\<rparr>"
proof -
  from assms(1,2) have ne: "s \<noteq> d" by auto
  obtain r1 w1 where o: "os_replace w s d = (r1, w1)" by (cases "os_replace w s d")
  show ?thesis
  proof (cases r1)
    case (Inr u)
    with o assms show ?thesis
      using os_replace_file [OF assms(1,2), of u w1]
      by (simp add: shutil_move_def is_dir_def) auto
  next
    case (Inl e)
    with o have w1: "w1 = w" using os_replace_fail by blast
    from assms Inl o w1 ne show ?thesis
      by (auto simp: shutil_move_def is_dir_def copy2_def os_unlink_def
          split: if_splits sum.splits)
  qed
qed

lemma safe_move_file:
  assumes "fs w src = Some (File sz)" and "safe_move w src dest = Some (r, w')"
  shows "\<exists>u w1. mkdir_parents w (parent dest) = (u, w1) \<and>
           (case r of
              Inr final \<Rightarrow> resolve_name_collision w1 dest = Some final \<and>
                  w' = w1\<lparr>fs := (fs w1)(final \<mapsto> File sz, src := None)\<rparr>
            | Inl e \<Rightarrow> w' = w1 \<or>
                  (\<exists>final. resolve_name_collision w1 dest = Some final \<and>
                     w' = w1\<lparr>fs := (fs w1)(final \<mapsto> File sz)\<rparr>))"
proof -
  obtain u w1 where m: "mkdir_parents w (parent dest) = (u, w1)"
    by (cases "mkdir_parents w (parent dest)")
  show ?thesis
  proof (cases u)
    case (Inl e)
    with m assms(2) show ?thesis by (auto simp: safe_move_def)
  next
    case (Inr uu)
    from m have src1: "fs w1 src = Some (File sz)"
      using mkdirs_keeps assms(1) by (simp add: mkdir_parents_def)
    from assms(2) m Inr obtain final where f: "resolve_name_collision w1 dest = Some final"
      by (auto simp: safe_move_def split: option.splits)
    hence absent: "fs w1 final = None"
      using resolve_name_collision_absent by (simp add: exists_def)
    obtain r2 w2 where o: "os_replace w1 src final = (r2, w2)"
      by (cases "os_replace w1 src final")
    show ?thesis
    proof (cases r2)
      case ok: (Inr u2)
      with o have "w2 = w1\<lparr>fs := (fs w1)(final \<mapsto> File sz, src := None)\<rparr>"
        using os_replace_file [OF src1 absent] by simp
      with assms(2) m Inr f o ok show ?thesis by (auto simp: safe_move_def)
    next
      case (Inl e)
      with o have w2: "w2 = w1" and ose: "is_OSError e" using os_replace_fail by blast+
      obtain r3 w3 where s: "shutil_move w1 src final = (r3, w3)"
        by (cases "shutil_move w1 src final")
      from shutil_move_file [OF src1 absent s] assms(2) m Inr f o Inl w2 ose s
      show ?thesis
        by (cases r3) (auto simp: safe_move_def)
    qed
  qed
qed

section \<open>The safe move\<close>

text \<open>
  Creating the ancestors of the destination does not touch the destination or the
  candidates beside it, so the collision is resolved as it would have been before.
\<close>

lemma resolve_loop_transfer:
  assumes agree: "\<And>n. exists wa (candidate par stm suf n) = exists wb (candidate par stm suf n)"
    and res: "resolve_loop wa par stm suf k = Some p"
  shows "resolve_loop wb par stm suf k = Some p"
proof -
  from resolve_loop_result [OF res] obtain n where n: "k \<le> n" "p = candidate par stm suf n"
    "\<not> exists wa p" "\<forall>m. k \<le> m \<and> m < n \<longrightarrow> exists wa (candidate par stm suf m)"
    by blast
  have "resolve_loop wb par stm suf k = Some (candidate par stm suf n)"
    using n agree by (intro resolve_loop_first_free) auto
  with n(2) show ?thesis by simp
qed

lemma resolve_loop_cong:
  assumes "\<And>n. exists wa (candidate par stm suf n) = exists wb (candidate par stm suf n)"
  shows "resolve_loop wa par stm suf k = resolve_loop wb par stm suf k"
proof (cases "resolve_loop wa par stm suf k")
  case (Some p)
  with resolve_loop_transfer [of wa par stm suf wb k p] assms show ?thesis by simp
next
  case None
  show ?thesis
  proof (cases "resolve_loop wb par stm suf k")
    case (Some p)
    with resolve_loop_transfer [of wb par stm suf wa k p] assms None show ?thesis by simp
  next
    case None': None
    with None show ?thesis by simp
  qed
qed

lemma mkdir_parents_resolve:
  assumes "mkdir_parents w (parent dest) = (u, w1)"
  shows "resolve_name_collision w1 dest = resolve_name_collision w dest"
    and "exists w1 dest = exists w dest"
proof -
  have m: "mkdirs w [] (parent dest) = (u, w1)" using assms by (simp add: mkdir_parents_def)
  have d: "fs w1 dest = fs w dest"
  proof (cases "dest = []")
    case True
    with m show ?thesis by (simp add: parent_def)
  next
    case False
    hence "length (parent dest) < length dest" by (simp add: parent_def)
    with mkdirs_long [OF m, of dest] show ?thesis by simp
  qed
  have c: "fs w1 (candidate (parent dest) stm suf n) = fs w (candidate (parent dest) stm suf n)"
    for stm suf n
    using mkdirs_long [OF m, of "candidate (parent dest) stm suf n"]
    by (simp add: candidate_def pjoin_def)
  show "exists w1 dest = exists w dest" using d by (simp add: exists_def)
  have "resolve_loop w1 (parent dest) (path_stem dest) (path_suffix dest) 1
      = resolve_loop w (parent dest) (path_stem dest) (path_suffix dest) 1"
    by (rule resolve_loop_cong) (simp add: exists_def c)
  with d show "resolve_name_collision w1 dest = resolve_name_collision w dest"
    by (simp add: resolve_name_collision_def exists_def)
qed

lemma safe_move_final:
  assumes "safe_move w src dest = Some (Inr final, w')"
  shows "resolve_name_collision w dest = Some final"
proof -
  obtain u w1 where m: "mkdir_parents w (parent dest) = (u, w1)"
    by (cases "mkdir_parents w (parent dest)")
  from assms m have "resolve_name_collision w1 dest = Some final"
    by (auto simp: safe_move_def split: sum.splits option.splits if_splits prod.splits)
  with mkdir_parents_resolve(1) [OF m] show ?thesis by simp
qed

text \<open>
  C9, as the code has it. \<open>organize\<close> hands \<open>safe_move\<close> the destination it computed,
  unresolved, and \<open>safe_move\<close> resolves the collision itself. The path it returns is
  \<open>resolve_name_collision\<close> of its input: a path that did not exist when it was called,
  and the input itself exactly when the input did not exist.
\<close>

theorem safe_move_returns_resolved:
  assumes "safe_move w src dest = Some (Inr final, w')"
  shows "resolve_name_collision w dest = Some final \<and> \<not> exists w final \<and>
         (final = dest \<longleftrightarrow> \<not> exists w dest)"
proof -
  have r: "resolve_name_collision w dest = Some final" using assms by (rule safe_move_final)
  hence a: "\<not> exists w final" by (rule resolve_name_collision_absent)
  have "final = dest \<longleftrightarrow> \<not> exists w dest"
  proof
    assume "final = dest" with a show "\<not> exists w dest" by simp
  next
    assume "\<not> exists w dest" with r show "final = dest"
      by (simp add: resolve_name_collision_def)
  qed
  with r a show ?thesis by simp
qed

theorem safe_move_returns_resolved_witness:
  "map_option fst (safe_move example_world [''dl'', ''a.jpg''] [''dl'', ''Images'', ''a.jpg''])
     = Some (Inr [''dl'', ''Images'', ''a.jpg'']) \<and>
   resolve_name_collision example_world [''dl'', ''Images'', ''a.jpg'']
     = Some [''dl'', ''Images'', ''a.jpg''] \<and>
   \<not> exists example_world [''dl'', ''Images'', ''a.jpg'']"
proof -
  obtain w' where s: "safe_move example_world [''dl'', ''a.jpg''] [''dl'', ''Images'', ''a.jpg'']
      = Some (Inr [''dl'', ''Images'', ''a.jpg''], w')"
    by (simp add: example_world_def os_eval path_eval resolve_loop.simps str_nat.simps
        digit_char_def)
  from safe_move_returns_resolved [OF s] s show ?thesis by simp
qed

text \<open>
  C9, as the claim states it, fails: for \<open>notes.txt\<close> the destination \<open>organize\<close>
  computes is \<open>/dl/Others/notes.txt\<close>, which exists, and \<open>safe_move\<close> returns
  \<open>/dl/Others/notes (2).txt\<close>.
\<close>

theorem safe_move_renames_counterexample:
  "dest_path_of example_config example_world [''dl'', ''notes.txt'']
     = Inr [''dl'', ''Others'', ''notes.txt''] \<and>
   map_option fst (safe_move example_world [''dl'', ''notes.txt''] [''dl'', ''Others'', ''notes.txt''])
     = Some (Inr [''dl'', ''Others'', ''notes (2).txt'']) \<and>
   [''dl'', ''Others'', ''notes (2).txt''] \<noteq> [''dl'', ''Others'', ''notes.txt'']"
  by (simp add: example_world_def example_config_def os_eval path_eval organize_eval
      resolve_loop.simps str_nat.simps digit_char_def)

section \<open>One file of a run\<close>

text \<open>
  The destination computed for a regular file, and what a successful move of it in a
  run that is not a dry run leaves behind: the file at the resolved destination, no
  entry at its old path, and one more record at the end of the journal.
\<close>

lemma dest_path_of_file:
  assumes "fs w file = Some (File sz)"
  shows "dest_path_of cfg w file =
           Inr (if LargeFileThresholdMB cfg \<noteq> 0 \<and> LargeFileThresholdMB cfg * 1048576 \<le> of_nat sz
                then DownloadsPath cfg @ [category_of cfg file, ''LargeFiles'', name file]
                else DownloadsPath cfg @ [category_of cfg file, name file])"
proof -
  have "(LargeFileThresholdMB cfg \<le> of_nat sz / (1024 * 1024))
      = (LargeFileThresholdMB cfg * 1048576 \<le> of_nat sz)"
    by (simp add: pos_le_divide_eq)
  with assms show ?thesis
    by (simp add: dest_path_of_def st_size_def pjoin_def Let_def)
qed

lemma organize_file_lands:
  assumes f: "fs w file = Some (File sz)"
    and o: "organize_file cfg False w file = Some (Inr cat, w')"
  shows "\<exists>dp final. dest_path_of cfg w file = Inr dp \<and> resolve_name_collision w dp = Some final \<and>
           parent final = parent dp \<and> fs w' final = Some (File sz) \<and> fs w' file = None \<and>
           cat = category_of cfg file \<and>
           journal w' = Some ((case journal w of None \<Rightarrow> [] | Some ls \<Rightarrow> ls)
               @ [Entry \<lparr>a_timestamp = clock w, a_src = file, a_dest = final\<rparr>])"
proof -
  from o obtain dp where dp: "dest_path_of cfg w file = Inr dp"
    by (auto simp: organize_file_def split: sum.splits)
  from o dp obtain final w1 where s: "safe_move w file dp = Some (Inr final, w1)"
    and w': "w' = record_action w1 file final" and cat: "cat = category_of cfg file"
    by (auto simp: organize_file_def split: option.splits sum.splits)
  from safe_move_file [OF f s] obtain u w0 where m: "mkdir_parents w (parent dp) = (u, w0)"
    and r0: "resolve_name_collision w0 dp = Some final"
    and w1: "w1 = w0\<lparr>fs := (fs w0)(final \<mapsto> File sz, file := None)\<rparr>"
    by auto
  have f0: "fs w0 file = Some (File sz)"
    using m mkdirs_keeps f by (simp add: mkdir_parents_def)
  have "fs w0 final = None"
    using resolve_name_collision_absent [OF r0] by (simp add: exists_def)
  with f0 have ne: "final \<noteq> file" by auto
  have fields: "w0 = w\<lparr>fs := fs w0\<rparr>"
    using m mkdirs_fields by (simp add: mkdir_parents_def)
  have j: "journal w1 = journal w" and c: "clock w1 = clock w"
    using w1 fields by (metis world.select_convs world.surjective world.update_convs)+
  have r: "resolve_name_collision w dp = Some final" using s by (rule safe_move_final)
  from ne w1 w' have "fs w' final = Some (File sz)" "fs w' file = None"
    by (simp_all add: record_action_def)
  moreover have "journal w' = Some ((case journal w of None \<Rightarrow> [] | Some ls \<Rightarrow> ls)
               @ [Entry \<lparr>a_timestamp = clock w, a_src = file, a_dest = final\<rparr>])"
    using w' j c by (simp add: record_action_def)
  ultimately show ?thesis
    using dp r cat resolve_name_collision_parent [OF r] by blast
qed

section \<open>The large-file rule\<close>



section \<open>Dry runs\<close>

lemma organize_file_dry: "\<exists>r. organize_file cfg True w file = Some (r, w)"
  by (simp add: organize_file_def split: sum.splits)

lemma organize_loop_dry:
  "\<exists>r. organize_loop cfg True preview_limit w idx files summary = Some (r, w)"
proof (induction files arbitrary: idx summary)
  case Nil
  show ?case by simp
next
  case (Cons f rest)
  from organize_file_dry [of cfg w f] obtain r where
    r: "organize_file cfg True w f = Some (r, w)" by blast
  show ?case
  proof (cases r)
    case (Inl e)
    with r show ?thesis by simp
  next
    case (Inr cat)
    with r Cons.IH [of "idx + 1" "count_file summary cat"] show ?thesis by auto
  qed
qed

text \<open>
  C6. A dry run of \<open>organize\<close> always returns, and the world it leaves is the world it
  started in: no entry of the file system and no line of the journal has changed. A
  second dry run therefore returns what the first one returned, the same summary
  included.
\<close>

theorem dry_run_idempotent:
  "\<exists>r. organize cfg True preview_limit w = Some (r, w) \<and>
       Option.bind (organize cfg True preview_limit w)
         (\<lambda>(r1, w1). organize cfg True preview_limit w1) = Some (r, w)"
proof -
  have "\<exists>r. organize cfg True preview_limit w = Some (r, w)"
    using organize_loop_dry by (simp add: organize_def)
  then obtain r where "organize cfg True preview_limit w = Some (r, w)" ..
  thus ?thesis by simp
qed

theorem dry_run_idempotent_witness:
  "organize example_config True None example_world
     = Some (Inr [(''Images'', 2), (''Others'', 1)], example_world) \<and>
   Option.bind (organize example_config True None example_world)
     (\<lambda>(r1, w1). organize example_config True None w1)
     = Some (Inr [(''Images'', 2), (''Others'', 1)], example_world)"
proof -
  have "map_option fst (organize example_config True None example_world)
      = Some (Inr [(''Images'', 2), (''Others'', 1)])"
    by (simp add: example_world_def example_config_def os_eval path_eval organize_eval)
  with dry_run_idempotent [of example_config None example_world] show ?thesis
    by auto
qed

section \<open>Undo with a count of zero\<close>

text \<open>
  C10. With \<open>count = 0\<close> and a journal that is not empty, \<open>lines[-0:]\<close> is the whole
  list and \<open>lines[:-0]\<close> is empty: \<open>undo_actions\<close> runs its loop over every line, most
  recent first, and leaves an empty journal. \<open>main\<close> never makes this call: with an
  undo count of \<open>0\<close> it runs \<open>organize\<close>.
\<close>

theorem undo_zero_takes_all:
  "(journal w = Some lines \<and> lines \<noteq> [] \<longrightarrow>
      undo_actions w 0 =
        (case undo_loop w (rev lines) 0 of (undone, w1) \<Rightarrow> (undone, w1\<lparr>journal := Some []\<rparr>))) \<and>
   (arg_undo a = 0 \<longrightarrow>
      main cfg a w =
        map_option (\<lambda>(r, w1). (OrganizeRun r, w1))
          (organize cfg (arg_dry_run a)
             (if arg_preview_limit a \<noteq> 0 then Some (arg_preview_limit a) else None) w))"
  by (auto simp: undo_actions_def slice_from_def slice_to_def slice_bound_def main_def
      split: option.splits prod.splits)

theorem undo_zero_takes_all_witness:
  "fst (undo_actions organized_world 0) = 2 \<and>
   journal (snd (undo_actions organized_world 0)) = Some [] \<and>
   fs (snd (undo_actions organized_world 0)) [''dl'', ''a.jpg''] = Some (File 1048576) \<and>
   fs (snd (undo_actions organized_world 0)) [''dl'', ''notes.txt''] = Some (File 10)"
proof -
  let ?lines = "[Entry \<lparr>a_timestamp = 0, a_src = [''dl'', ''a.jpg''],
                        a_dest = [''dl'', ''Images'', ''a.jpg'']\<rparr>,
                 Entry \<lparr>a_timestamp = 1, a_src = [''dl'', ''notes.txt''],
                        a_dest = [''dl'', ''Others'', ''notes.txt'']\<rparr>]"
  have j: "journal organized_world = Some ?lines \<and> ?lines \<noteq> []"
    by (simp add: organized_world_def)
  have "undo_actions organized_world 0 =
      (case undo_loop organized_world (rev ?lines) 0 of
         (undone, w1) \<Rightarrow> (undone, w1\<lparr>journal := Some []\<rparr>))"
    using undo_zero_takes_all [THEN conjunct1, rule_format, OF j] .
  thus ?thesis
    by (simp add: organized_world_def os_eval path_eval undo_line_def)
qed

section \<open>Undo\<close>






section \<open>A move that fails\<close>

lemma safe_move_failure_keeps:
  assumes f: "fs w src = Some (File sz)" and s: "safe_move w src dest = Some (Inl e, w1)"
  shows "journal w1 = journal w" and "fs w p = Some n \<Longrightarrow> fs w1 p = Some n"
proof -
  from safe_move_file [OF f s] obtain u w0 where m: "mkdir_parents w (parent dest) = (u, w0)"
    and c: "w1 = w0 \<or> (\<exists>final. resolve_name_collision w0 dest = Some final \<and>
                     w1 = w0\<lparr>fs := (fs w0)(final \<mapsto> File sz)\<rparr>)"
    by auto
  have fields: "w0 = w\<lparr>fs := fs w0\<rparr>"
    using m mkdirs_fields by (simp add: mkdir_parents_def)
  hence "journal w0 = journal w"
    by (metis world.select_convs(5) world.surjective world.update_convs(1))
  with c show "journal w1 = journal w" by auto
  assume p: "fs w p = Some n"
  hence p0: "fs w0 p = Some n" using m mkdirs_keeps by (simp add: mkdir_parents_def)
  from c show "fs w1 p = Some n"
  proof
    assume "w1 = w0" with p0 show ?thesis by simp
  next
    assume "\<exists>final. resolve_name_collision w0 dest = Some final \<and>
                     w1 = w0\<lparr>fs := (fs w0)(final \<mapsto> File sz)\<rparr>"
    then obtain final where r: "resolve_name_collision w0 dest = Some final"
      and w1: "w1 = w0\<lparr>fs := (fs w0)(final \<mapsto> File sz)\<rparr>" by blast
    from resolve_name_collision_absent [OF r] p0 have "final \<noteq> p"
      by (auto simp: exists_def)
    with w1 p0 show ?thesis by simp
  qed
qed




section \<open>The journal of a run\<close>

text \<open>
  Processing one file leaves every other regular file where it is, so the files still
  to come are untouched and the files already moved stay at their destinations.
\<close>

lemma organize_file_keeps:
  assumes f: "fs w f = Some (File sz)"
    and o: "organize_file cfg dry_run w f = Some (r, w1)"
    and p: "fs w p = Some n" and ne: "p \<noteq> f"
  shows "fs w1 p = Some n"
proof (cases dry_run)
  case True
  with o organize_file_dry [of cfg w f] have "w1 = w" by auto
  with p show ?thesis by simp
next
  case False
  from dest_path_of_file [OF f] obtain dp where dp: "dest_path_of cfg w f = Inr dp" by blast
  from o dp False obtain r' w2 where s: "safe_move w f dp = Some (r', w2)"
    by (auto simp: organize_file_def split: option.splits)
  show ?thesis
  proof (cases r')
    case (Inl e)
    with o dp False s have "w1 = w2" by (simp add: organize_file_def)
    with safe_move_failure_keeps(2) [OF f s [unfolded Inl] p] show ?thesis by simp
  next
    case (Inr final)
    with o dp False s have w1: "w1 = record_action w2 f final" by (simp add: organize_file_def)
    from safe_move_file [OF f s] Inr obtain u w0 where m: "mkdir_parents w (parent dp) = (u, w0)"
      and r0: "resolve_name_collision w0 dp = Some final"
      and w2: "w2 = w0\<lparr>fs := (fs w0)(final \<mapsto> File sz, f := None)\<rparr>" by auto
    have p0: "fs w0 p = Some n" using m mkdirs_keeps p by (simp add: mkdir_parents_def)
    with resolve_name_collision_absent [OF r0] have "final \<noteq> p" by (auto simp: exists_def)
    with w1 w2 p0 ne show ?thesis by (simp add: record_action_def)
  qed
qed












section \<open>Move, then undo\<close>

text \<open>
  A move that has succeeded shows that both directories can be written. When the whole
  tree is on one device, the rename back therefore succeeds: undoing one action right
  after the move of a regular file puts the file back at its old path, removes it from
  its destination, and leaves the journal with the lines it had before the move.
\<close>

lemma safe_move_success_fields:
  assumes f: "fs w src = Some (File sz)" and s: "safe_move w src dest = Some (Inr final, w1)"
  shows "device w1 = device w \<and> readonly w1 = readonly w \<and> journal w1 = journal w \<and>
         clock w1 = clock w \<and> parent src \<notin> readonly w \<and> parent final \<notin> readonly w"
proof -
  from safe_move_file [OF f s] obtain u w0 where m: "mkdir_parents w (parent dest) = (u, w0)"
    and r0: "resolve_name_collision w0 dest = Some final"
    and w1: "w1 = w0\<lparr>fs := (fs w0)(final \<mapsto> File sz, src := None)\<rparr>" by auto
  have fields: "w0 = w\<lparr>fs := fs w0\<rparr>"
    using m mkdirs_fields by (simp add: mkdir_parents_def)
  have same: "device w0 = device w" "readonly w0 = readonly w" "journal w0 = journal w"
    "clock w0 = clock w"
    by (metis fields world.select_convs world.surjective world.update_convs)+
  have f0: "fs w0 src = Some (File sz)"
    using m mkdirs_keeps f by (simp add: mkdir_parents_def)
  have absent: "fs w0 final = None"
    using resolve_name_collision_absent [OF r0] by (simp add: exists_def)
  with f0 have ne: "src \<noteq> final" by auto
  from s m r0 have u: "u = Inr ()" by (cases u) (auto simp: safe_move_def)
  obtain r2 w2 where o: "os_replace w0 src final = (r2, w2)" by (cases "os_replace w0 src final")
  have "parent src \<notin> readonly w0 \<and> parent final \<notin> readonly w0"
  proof (cases r2)
    case (Inr u2)
    with o f0 absent ne show ?thesis
      by (auto simp: os_replace_def split: if_splits)
  next
    case (Inl e)
    with o have w2: "w2 = w0" and ose: "is_OSError e" using os_replace_fail by blast+
    from s m u r0 o Inl w2 ose obtain p w3 where sm: "shutil_move w0 src final = (Inr p, w3)"
      by (auto simp: safe_move_def split: sum.splits prod.splits)
    with o Inl w2 f0 absent ne show ?thesis
      by (auto simp: shutil_move_def is_dir_def copy2_def os_unlink_def Let_def
          split: if_splits sum.splits prod.splits)
  qed
  with same w1 show ?thesis by simp
qed

lemma round_trip_one_device:
  assumes f: "fs w f = Some (File sz)" and par: "fs w (parent f) = Some Dir"
    and dev: "\<And>p q. device w p = device w q"
    and o: "organize_file cfg False w f = Some (Inr cat, w1)"
  shows "\<exists>final w2. journal_lines w1
             = journal_lines w @ [Entry \<lparr>a_timestamp = clock w, a_src = f, a_dest = final\<rparr>] \<and>
           fs w1 final = Some (File sz) \<and> fs w1 f = None \<and>
           undo_actions w1 1 = (1, w2) \<and>
           fs w2 f = Some (File sz) \<and> fs w2 final = None \<and>
           journal_lines w2 = journal_lines w"
proof -
  from organize_file_lands [OF f o] obtain dp final where
    dp: "dest_path_of cfg w f = Inr dp"
    and at: "fs w1 final = Some (File sz)" and gone: "fs w1 f = None"
    and j1: "journal w1 = Some (journal_lines w
               @ [Entry \<lparr>a_timestamp = clock w, a_src = f, a_dest = final\<rparr>])"
    by (auto simp: journal_lines_def)
  from o dp obtain final' w1' where s': "safe_move w f dp = Some (Inr final', w1')"
    and w1': "w1 = record_action w1' f final'"
    by (auto simp: organize_file_def split: option.splits sum.splits)
  from w1' j1 have "final' = final"
    by (simp add: record_action_def)
  with s' w1' have s: "safe_move w f dp = Some (Inr final, w1')"
    and w1: "w1 = record_action w1' f final" by simp_all
  from safe_move_success_fields [OF f s] w1
  have d1: "device w1 = device w" and ro: "parent f \<notin> readonly w1" "parent final \<notin> readonly w1"
    by (simp_all add: record_action_def)
  from gone par have "parent f \<noteq> f" using f by auto
  from organize_file_keeps [OF f o par this] have par1: "fs w1 (parent f) = Some Dir" .
  from at gone have ne: "final \<noteq> f" by auto
  let ?w2 = "w1\<lparr>fs := (fs w1)(f \<mapsto> File sz, final := None)\<rparr>"
  have undo_rename: "os_replace w1 final f = (Inr (), ?w2)"
    using at gone par1 ne ro d1 dev by (simp add: os_replace_def)
  have line: "undo_line w1 (Entry \<lparr>a_timestamp = clock w, a_src = f, a_dest = final\<rparr>)
      = (Inr True, ?w2)"
    using at gone undo_rename by (simp add: undo_line_def exists_def)
  have "undo_actions w1 1 = (1, ?w2\<lparr>journal := Some (journal_lines w)\<rparr>)"
    using j1 line by (simp add: undo_actions_def slice_from_def slice_to_def slice_bound_def)
  with j1 at gone ne show ?thesis
    by (intro exI [of _ final] exI [of _ "?w2\<lparr>journal := Some (journal_lines w)\<rparr>"])
       (simp add: journal_lines_def)
qed

text \<open>
  C1 fails on the code when the move crosses devices. In \<open>mounted_world\<close> the folder
  \<open>/dl/Images\<close> is on a device of its own: \<open>os.replace\<close> raises for \<open>a.jpg\<close>, and
  \<open>safe_move\<close> moves it with the fallback \<open>shutil.move\<close> and records the move.
  \<open>undo_actions\<close> has no such fallback: undoing one action right away, its \<open>os.replace\<close>
  raises, the error is caught, the count returned is \<open>0\<close>, the file stays in
  \<open>/dl/Images\<close>, and the record is removed from the journal all the same.
\<close>

theorem undo_after_cross_device_move:
  "fst (os_replace mounted_world [''dl'', ''a.jpg''] [''dl'', ''Images'', ''a.jpg''])
     = Inl CrossDeviceError \<and>
   map_option (\<lambda>(r, w1). (r, fs w1 [''dl'', ''a.jpg''], fs w1 [''dl'', ''Images'', ''a.jpg''],
                           journal w1))
       (organize example_config False (Some 1) mounted_world)
     = Some (Inr [(''Images'', 1), (''Others'', 0)], None, Some (File 1048576),
             Some [Entry \<lparr>a_timestamp = 0, a_src = [''dl'', ''a.jpg''],
                            a_dest = [''dl'', ''Images'', ''a.jpg'']\<rparr>]) \<and>
   map_option (\<lambda>(r, w1). case undo_actions w1 1 of
                  (undone, w2) \<Rightarrow> (undone, fs w2 [''dl'', ''a.jpg''],
                                    fs w2 [''dl'', ''Images'', ''a.jpg''], journal w2))
       (organize example_config False (Some 1) mounted_world)
     = Some (0, None, Some (File 1048576), Some [])"
  by (simp add: mounted_world_def example_world_def example_config_def os_eval path_eval
      organize_eval undo_eval)

end
